theory Spec2Isabelle
  imports Complex_Main "HOL-Library.AList"
begin

section \<open>The host language: numbers, strings, maps, errors\<close>

text \<open>
  The module \<^verbatim>\<open>ts.performance\<close> (src/compiler/performance.ts) keeps its state in
  module-level variables and talks to the outside through \<^verbatim>\<open>timestamp()\<close>,
  \<^verbatim>\<open>Math.random()\<close>, \<^verbatim>\<open>Date.now()\<close>, \<^verbatim>\<open>console.log\<close> and an optional profiler hook.
  The embedding passes the module state explicitly as a record and reads the outside
  from an environment of oracles.

  A JavaScript \<^verbatim>\<open>number\<close> is modelled as an exact \<^typ>\<open>real\<close>: the values are finite,
  rounding is not modelled and there is no NaN. Counters that only ever hold whole
  numbers (\<^verbatim>\<open>enterCount\<close>, \<^verbatim>\<open>logDepth\<close>) are \<^typ>\<open>int\<close>.
\<close>

type_synonym number = real

text \<open>
  The two exceptions the module can raise: the \<^verbatim>\<open>TypeError\<close> of a method call on
  \<^verbatim>\<open>undefined\<close> (a map that \<^verbatim>\<open>enable()\<close> has not created yet), and the failure raised
  by \<^verbatim>\<open>Debug.fail\<close>. An exception ends the call; the result is \<open>Inl\<close> of the error.
\<close>

datatype error = TypeError | DebugFailure string

text \<open>
  Modelled from the spec: \<^verbatim>\<open>Debug.fail\<close> is declared outside performance.ts. The spec
  calls it a fatal, non-recoverable assertion failure that halts with a diagnostic
  message; it never returns a value.
\<close>

definition Debug_fail :: "string \<Rightarrow> error + 'r" where
  "Debug_fail message = Inl (DebugFailure message)"

text \<open>
  \<^verbatim>\<open>Map<number>\<close> with string keys. The entries are kept in insertion order, which is
  the order \<^verbatim>\<open>forEach\<close> visits them in; \<^verbatim>\<open>set\<close> on a present key replaces its value in
  place, on an absent key it adds the entry at the end.
\<close>

type_synonym 'v Map = "(string \<times> 'v) list"

text \<open>
  Modelled from the spec: \<^verbatim>\<open>createMap\<close> is declared outside performance.ts; the spec
  says \<^verbatim>\<open>enable()\<close> creates three empty mappings with it.
\<close>

definition createMap :: "'v Map" where
  "createMap = []"

definition Map_get :: "'v Map \<Rightarrow> string \<Rightarrow> 'v option" where
  "Map_get m k = map_of m k"

definition Map_set :: "'v Map \<Rightarrow> string \<Rightarrow> 'v \<Rightarrow> 'v Map" where
  "Map_set m k v = AList.update k v m"

definition Map_forEach :: "'v Map \<Rightarrow> ('v \<Rightarrow> string \<Rightarrow> 's \<Rightarrow> 's) \<Rightarrow> 's \<Rightarrow> 's" where
  "Map_forEach m f s = foldl (\<lambda>acc (k, v). f v k acc) s m"

text \<open>
  \<^verbatim>\<open>x || d\<close> for \<^verbatim>\<open>x: number | undefined\<close> and a default without side effects:
  \<^verbatim>\<open>undefined\<close> and \<^verbatim>\<open>0\<close> are falsy.
\<close>

definition number_or :: "number option \<Rightarrow> number \<Rightarrow> number" where
  "number_or x d = (case x of None \<Rightarrow> d | Some v \<Rightarrow> if v = 0 then d else v)"

text \<open>
  \<^verbatim>\<open>name && m.get(name)\<close> for \<^verbatim>\<open>name: string | undefined\<close> and a map variable \<open>m\<close> that
  may still be \<^verbatim>\<open>undefined\<close>. \<^verbatim>\<open>undefined\<close> and the empty string are falsy, and then the
  map is not touched; otherwise \<^verbatim>\<open>m.get\<close> raises on an undefined map. The result is the
  value the following \<^verbatim>\<open>||\<close> sees as truthy, or \<open>None\<close> when it is falsy
  (\<^verbatim>\<open>undefined\<close>, the empty string, or a stored \<^verbatim>\<open>0\<close>).
\<close>

definition and_get :: "string option \<Rightarrow> number Map option \<Rightarrow> error + number option" where
  "and_get name m =
     (case name of
        None \<Rightarrow> Inr None
      | Some n \<Rightarrow>
          if n = [] then Inr None
          else (case m of
                  None \<Rightarrow> Inl TypeError
                | Some mp \<Rightarrow>
                    (case Map_get mp n of
                       None \<Rightarrow> Inr None
                     | Some v \<Rightarrow> if v = 0 then Inr None else Inr (Some v))))"

text \<open>The decimal digits of a whole number, as a template literal prints it.\<close>

fun natToString :: "nat \<Rightarrow> string" where
  "natToString n =
     (if n < 10 then [''0123456789'' ! n]
      else natToString (n div 10) @ [''0123456789'' ! (n mod 10)])"

declare natToString.simps [simp del]

definition numberToString :: "int \<Rightarrow> string" where
  "numberToString i = (if i < 0 then ''-'' @ natToString (nat (- i)) else natToString (nat i))"

section \<open>Module state and environment\<close>

text \<open>
  The record of one trace event, as \<^verbatim>\<open>logCompleteEvent\<close> builds it. \<open>ev_args\<close> is
  \<open>None\<close> when the \<^verbatim>\<open>args\<close> key is left out.
\<close>

record 'a trace_event =
  ev_name :: string
  ev_cat :: string
  ev_ph :: string
  ev_pid :: int
  ev_tid :: int
  ev_ts :: number
  ev_dur :: number
  ev_args :: "'a option"

text \<open>
  What the module reads from outside. The \<open>k\<close>-th call of \<^verbatim>\<open>timestamp()\<close>,
  \<^verbatim>\<open>Math.random()\<close> and \<^verbatim>\<open>Date.now()\<close> returns \<open>timestampAt k\<close>, \<open>randomAt k\<close> and
  \<open>dateNowAt k\<close>. \<open>onProfilerEvent\<close> is \<open>None\<close> when the global is not a function and
  \<open>Some b\<close> when it is one whose \<^verbatim>\<open>profiler\<close> property is \<^verbatim>\<open>true\<close> exactly if \<open>b\<close>.
  \<open>JSON_stringify\<close> is the serializer of \<^verbatim>\<open>JSON.stringify\<close> on event records.
\<close>

record 'a env =
  timestampAt :: "nat \<Rightarrow> number"
  randomAt :: "nat \<Rightarrow> number"
  dateNowAt :: "nat \<Rightarrow> number"
  onProfilerEvent :: "bool option"
  JSON_stringify :: "'a trace_event \<Rightarrow> string"

text \<open>
  The module variables (lines 9 to 15), followed by what the module has done to the
  outside: the lines written by \<^verbatim>\<open>console.log\<close>, the arguments the profiler hook was
  called with, and how often each oracle has been read. A map variable is \<open>None\<close> while
  it is \<^verbatim>\<open>undefined\<close>.
\<close>

record world =
  enabled :: bool
  profilerStart :: number
  counts :: "number Map option"
  marks :: "number Map option"
  measures :: "number Map option"
  logDepth :: int
  isFirstLogEvent :: bool
  stdout :: "string list"
  hookCalls :: "string list"
  timestampReads :: nat
  randomReads :: nat
  dateNowReads :: nat

definition initial :: world where
  "initial = \<lparr> enabled = False, profilerStart = 0, counts = None, marks = None,
               measures = None, logDepth = 0, isFirstLogEvent = True, stdout = [],
               hookCalls = [], timestampReads = 0, randomReads = 0, dateNowReads = 0 \<rparr>"

definition timestamp :: "'a env \<Rightarrow> world \<Rightarrow> number \<times> world" where
  "timestamp e w = (timestampAt e (timestampReads w), w\<lparr>timestampReads := timestampReads w + 1\<rparr>)"

definition Math_random :: "'a env \<Rightarrow> world \<Rightarrow> number \<times> world" where
  "Math_random e w = (randomAt e (randomReads w), w\<lparr>randomReads := randomReads w + 1\<rparr>)"

definition Date_now :: "'a env \<Rightarrow> world \<Rightarrow> number \<times> world" where
  "Date_now e w = (dateNowAt e (dateNowReads w), w\<lparr>dateNowReads := dateNowReads w + 1\<rparr>)"

definition console_log :: "string \<Rightarrow> world \<Rightarrow> world" where
  "console_log line w = w\<lparr>stdout := stdout w @ [line]\<rparr>"

text \<open>
  Line 7: the hook is called only when \<^verbatim>\<open>onProfilerEvent\<close> is a function whose
  \<^verbatim>\<open>profiler\<close> property is \<^verbatim>\<open>true\<close>; otherwise \<^verbatim>\<open>profilerEvent\<close> is the empty function.
\<close>

definition profilerEvent :: "'a env \<Rightarrow> string \<Rightarrow> world \<Rightarrow> world" where
  "profilerEvent e markName w =
     (if onProfilerEvent e = Some True then w\<lparr>hookCalls := hookCalls w @ [markName]\<rparr> else w)"

section \<open>Trace event emission\<close>

definition logTraceEvent :: "('d \<Rightarrow> string) \<Rightarrow> 'd \<Rightarrow> world \<Rightarrow> world" where
  "logTraceEvent stringify d w =
     (let w1 = (if isFirstLogEvent w
                then (console_log ''['' w)\<lparr>isFirstLogEvent := False\<rparr>
                else w)
      in console_log (''  '' @ stringify d @ '','') w1)"

definition logCompleteEvent :: "'a env \<Rightarrow> string \<Rightarrow> number \<Rightarrow> 'a option \<Rightarrow> world \<Rightarrow> world" where
  "logCompleteEvent e name durationMillis args w =
     (let tid = logDepth w;
          (now, w1) = Date_now e w
      in logTraceEvent (JSON_stringify e)
           \<lparr> ev_name = name, ev_cat = ''build'', ev_ph = ''X'', ev_pid = 1, ev_tid = tid,
             ev_ts = (now - durationMillis) * 1000, ev_dur = durationMillis * 1000,
             ev_args = args \<rparr> w1)"

definition logSlowEvent :: "'a env \<Rightarrow> string \<Rightarrow> number \<Rightarrow> 'a option \<Rightarrow> world \<Rightarrow> world" where
  "logSlowEvent e name durationMillis args w =
     (if durationMillis > 10 then
        (let (r, w1) = Math_random e w;
             rand = \<lfloor>r * 10000\<rfloor>
         in logCompleteEvent e (name @ ''-'' @ numberToString rand) durationMillis args w1)
      else w)"

definition increaseLogDepth :: "world \<Rightarrow> world" where
  "increaseLogDepth w = w\<lparr>logDepth := logDepth w + 1\<rparr>"

definition decreaseLogDepth :: "world \<Rightarrow> world" where
  "decreaseLogDepth w = w\<lparr>logDepth := logDepth w - 1\<rparr>"

section \<open>Marks and measures\<close>

definition mark :: "'a env \<Rightarrow> string \<Rightarrow> world \<Rightarrow> error + world" where
  "mark e markName w =
     (if enabled w then
        (case marks w of
           None \<Rightarrow> Inl TypeError
         | Some mk \<Rightarrow>
             (let (t, w1) = timestamp e w;
                  w2 = w1\<lparr>marks := Some (Map_set mk markName t)\<rparr>
              in case counts w2 of
                   None \<Rightarrow> Inl TypeError
                 | Some c \<Rightarrow>
                     (let w3 = w2\<lparr>counts :=
                                 Some (Map_set c markName (number_or (Map_get c markName) 0 + 1))\<rparr>
                      in Inr (profilerEvent e markName w3))))
      else Inr w)"

text \<open>
  The duration one call of \<^verbatim>\<open>measure\<close> computes (\<^verbatim>\<open>end - start\<close>, lines 76 and 77),
  with the world after the oracle reads of the two lines.
\<close>

definition measure_delta ::
  "'a env \<Rightarrow> string option \<Rightarrow> string option \<Rightarrow> world \<Rightarrow> error + (number \<times> number \<times> world)" where
  "measure_delta e startMarkName endMarkName w =
     (case and_get endMarkName (marks w) of
        Inl err \<Rightarrow> Inl err
      | Inr endv \<Rightarrow>
          (let (endT, w1) = (case endv of Some t \<Rightarrow> (t, w) | None \<Rightarrow> timestamp e w)
           in case and_get startMarkName (marks w1) of
                Inl err \<Rightarrow> Inl err
              | Inr startv \<Rightarrow>
                  (let startT = (case startv of Some t \<Rightarrow> t | None \<Rightarrow> profilerStart w1)
                   in Inr (startT, endT, w1))))"

definition measure_perf ::
  "'a env \<Rightarrow> string \<Rightarrow> string option \<Rightarrow> string option \<Rightarrow> world \<Rightarrow> error + world" where
  "measure_perf e measureName startMarkName endMarkName w =
     (if enabled w then
        (case measure_delta e startMarkName endMarkName w of
           Inl err \<Rightarrow> Inl err
         | Inr (startT, endT, w1) \<Rightarrow>
             (case measures w1 of
                None \<Rightarrow> Inl TypeError
              | Some ms \<Rightarrow>
                  (let w2 = w1\<lparr>measures :=
                              Some (Map_set ms measureName
                                      (number_or (Map_get ms measureName) 0 + (endT - startT)))\<rparr>
                   in Inr (logSlowEvent e measureName (endT - startT) None w2))))
      else Inr w)"

definition getCount :: "string \<Rightarrow> world \<Rightarrow> number" where
  "getCount markName w =
     (case counts w of None \<Rightarrow> 0 | Some c \<Rightarrow> number_or (Map_get c markName) 0)"

definition getDuration :: "string \<Rightarrow> world \<Rightarrow> number" where
  "getDuration measureName w =
     (case measures w of None \<Rightarrow> 0 | Some ms \<Rightarrow> number_or (Map_get ms measureName) 0)"

text \<open>
  The callback is a state transformer on whatever the caller accumulates; it gets the
  key and the stored duration. The result is the caller's state after the last call.
\<close>

definition forEachMeasure :: "(string \<Rightarrow> number \<Rightarrow> 's \<Rightarrow> 's) \<Rightarrow> world \<Rightarrow> 's \<Rightarrow> error + 's" where
  "forEachMeasure cb w s =
     (case measures w of
        None \<Rightarrow> Inl TypeError
      | Some ms \<Rightarrow> Inr (Map_forEach ms (\<lambda>measure key. cb key measure) s))"

definition enable :: "'a env \<Rightarrow> world \<Rightarrow> world" where
  "enable e w =
     (let w1 = w\<lparr>counts := Some createMap\<rparr>;
          w2 = w1\<lparr>marks := Some createMap\<rparr>;
          w3 = w2\<lparr>measures := Some createMap\<rparr>;
          w4 = w3\<lparr>enabled := True\<rparr>;
          (t, w5) = timestamp e w4
      in w5\<lparr>profilerStart := t\<rparr>)"

definition disable :: "world \<Rightarrow> world" where
  "disable w = w\<lparr>enabled := False\<rparr>"

section \<open>Timers\<close>

text \<open>
  A \<^verbatim>\<open>Timer\<close> is an object with the two methods \<^verbatim>\<open>enter\<close> and \<^verbatim>\<open>exit\<close>. The module makes
  two kinds: the closure of \<^verbatim>\<open>createTimer\<close>, which captures the three names and its own
  \<^verbatim>\<open>enterCount\<close>, and the shared \<^verbatim>\<open>nullTimer\<close>.
\<close>

datatype Timer = CreatedTimer string string string int | NullTimer

text \<open>
  Modelled from the spec: \<^verbatim>\<open>noop\<close> is declared outside performance.ts; the spec says
  both operations of \<^verbatim>\<open>nullTimer\<close> are side-effect-free no-ops.
\<close>

definition noop :: "Timer \<Rightarrow> world \<Rightarrow> error + Timer \<times> world" where
  "noop t w = Inr (t, w)"

definition nullTimer :: Timer where
  "nullTimer = NullTimer"

definition createTimer :: "string \<Rightarrow> string \<Rightarrow> string \<Rightarrow> Timer" where
  "createTimer measureName startMarkName endMarkName =
     CreatedTimer measureName startMarkName endMarkName 0"

definition createTimerIf :: "bool \<Rightarrow> string \<Rightarrow> string \<Rightarrow> string \<Rightarrow> Timer" where
  "createTimerIf condition measureName startMarkName endMarkName =
     (if condition then createTimer measureName startMarkName endMarkName else nullTimer)"

fun enter :: "'a env \<Rightarrow> Timer \<Rightarrow> world \<Rightarrow> error + Timer \<times> world" where
  "enter e (CreatedTimer measureName startMarkName endMarkName enterCount) w =
     (let enterCount1 = enterCount + 1
      in if enterCount1 = 1 then
           (case mark e startMarkName w of
              Inl err \<Rightarrow> Inl err
            | Inr w1 \<Rightarrow> Inr (CreatedTimer measureName startMarkName endMarkName enterCount1, w1))
         else Inr (CreatedTimer measureName startMarkName endMarkName enterCount1, w))"
| "enter e NullTimer w = noop NullTimer w"

fun exit :: "'a env \<Rightarrow> Timer \<Rightarrow> world \<Rightarrow> error + Timer \<times> world" where
  "exit e (CreatedTimer measureName startMarkName endMarkName enterCount) w =
     (let enterCount1 = enterCount - 1
      in if enterCount1 = 0 then
           (case mark e endMarkName w of
              Inl err \<Rightarrow> Inl err
            | Inr w1 \<Rightarrow>
                (case measure_perf e measureName (Some startMarkName) (Some endMarkName) w1 of
                   Inl err \<Rightarrow> Inl err
                 | Inr w2 \<Rightarrow>
                     Inr (CreatedTimer measureName startMarkName endMarkName enterCount1, w2)))
         else if enterCount1 < 0 then Debug_fail ''enter/exit count does not match.''
         else Inr (CreatedTimer measureName startMarkName endMarkName enterCount1, w))"
| "exit e NullTimer w = noop NullTimer w"

section \<open>Call sequences\<close>

text \<open>
  A caller's sequence of \<^verbatim>\<open>enter()\<close> and \<^verbatim>\<open>exit()\<close> calls on one timer. The first
  exception ends the run.
\<close>

datatype timer_call = Enter | Exit

fun run_timer :: "'a env \<Rightarrow> timer_call list \<Rightarrow> Timer \<times> world \<Rightarrow> error + Timer \<times> world" where
  "run_timer e [] tw = Inr tw"
| "run_timer e (Enter # cs) (t, w) =
     (case enter e t w of Inl err \<Rightarrow> Inl err | Inr tw1 \<Rightarrow> run_timer e cs tw1)"
| "run_timer e (Exit # cs) (t, w) =
     (case exit e t w of Inl err \<Rightarrow> Inl err | Inr tw1 \<Rightarrow> run_timer e cs tw1)"

text \<open>
  \<open>never_outnumber c cs\<close>: starting with \<open>c\<close> unmatched enters, no prefix of \<open>cs\<close> has
  more exits than enters.
\<close>

fun never_outnumber :: "int \<Rightarrow> timer_call list \<Rightarrow> bool" where
  "never_outnumber c [] = True"
| "never_outnumber c (Enter # cs) = never_outnumber (c + 1) cs"
| "never_outnumber c (Exit # cs) = (0 < c \<and> never_outnumber (c - 1) cs)"

text \<open>
  A process's sequence of calls to the exported recording and logging functions, run
  from the state the module is loaded in (\<open>initial\<close>).
\<close>

datatype 'a call =
    Enable
  | Disable
  | Mark string
  | Measure string "string option" "string option"
  | IncreaseLogDepth
  | DecreaseLogDepth
  | LogSlowEvent string number "'a option"
  | LogCompleteEvent string number "'a option"
  | LogTraceEvent "'a trace_event"

fun step :: "'a env \<Rightarrow> 'a call \<Rightarrow> world \<Rightarrow> error + world" where
  "step e Enable w = Inr (enable e w)"
| "step e Disable w = Inr (disable w)"
| "step e (Mark markName) w = mark e markName w"
| "step e (Measure measureName startMarkName endMarkName) w =
     measure_perf e measureName startMarkName endMarkName w"
| "step e IncreaseLogDepth w = Inr (increaseLogDepth w)"
| "step e DecreaseLogDepth w = Inr (decreaseLogDepth w)"
| "step e (LogSlowEvent name durationMillis args) w =
     Inr (logSlowEvent e name durationMillis args w)"
| "step e (LogCompleteEvent name durationMillis args) w =
     Inr (logCompleteEvent e name durationMillis args w)"
| "step e (LogTraceEvent d) w = Inr (logTraceEvent (JSON_stringify e) d w)"

fun run :: "'a env \<Rightarrow> 'a call list \<Rightarrow> world \<Rightarrow> error + world" where
  "run e [] w = Inr w"
| "run e (c # cs) w = (case step e c w of Inl err \<Rightarrow> Inl err | Inr w1 \<Rightarrow> run e cs w1)"

text \<open>The callback that writes down every call it receives, in order.\<close>

definition record_call :: "string \<Rightarrow> number \<Rightarrow> (string \<times> number) list \<Rightarrow> (string \<times> number) list" where
  "record_call key duration calls = calls @ [(key, duration)]"

text \<open>
  A concrete environment for the examples: the clock advances 20 ms per reading,
  \<^verbatim>\<open>Math.random()\<close> returns 0.1234, the wall clock stands at 5000, the profiler hook is
  active, and an event is serialized as its name.
\<close>

definition sample_env :: "unit env" where
  "sample_env = \<lparr> timestampAt = (\<lambda>k. 20 * real k), randomAt = (\<lambda>k. 1234 / 10000),
                  dateNowAt = (\<lambda>k. 5000), onProfilerEvent = Some True,
                  JSON_stringify = ev_name \<rparr>"

text \<open>
  An environment whose clock reads 0 twice (at \<^verbatim>\<open>enable()\<close> and at the first mark)
  and 7 afterwards.
\<close>

definition origin_env :: "unit env" where
  "origin_env = \<lparr> timestampAt = (\<lambda>k. if k < 2 then 0 else 7), randomAt = (\<lambda>k. 0),
                  dateNowAt = (\<lambda>k. 5000), onProfilerEvent = None,
                  JSON_stringify = ev_name \<rparr>"

section \<open>Invariants of the module state\<close>

text \<open>The line the second \<^verbatim>\<open>console.log\<close> of \<^verbatim>\<open>logTraceEvent\<close> writes for a record.\<close>

definition record_line :: "('d \<Rightarrow> string) \<Rightarrow> 'd \<Rightarrow> string" where
  "record_line stringify d = ''  '' @ stringify d @ '',''"

text \<open>
  Before the first \<^verbatim>\<open>enable()\<close> the three map variables are \<^verbatim>\<open>undefined\<close> and the
  module is disabled.
\<close>

definition never_enabled :: "world \<Rightarrow> bool" where
  "never_enabled w = (\<not> enabled w \<and> counts w = None \<and> marks w = None \<and> measures w = None)"

text \<open>
  After it the three maps exist, and no key occurs twice among the entries of
  \<^verbatim>\<open>measures\<close>.
\<close>

definition maps_created :: "world \<Rightarrow> bool" where
  "maps_created w =
     (counts w \<noteq> None \<and> marks w \<noteq> None \<and>
      (case measures w of None \<Rightarrow> False | Some ms \<Rightarrow> distinct (map fst ms)))"

text \<open>The states in which recording cannot raise: disabled, or enabled with the maps created.\<close>

definition world_ok :: "world \<Rightarrow> bool" where
  "world_ok w = (\<not> enabled w \<or> maps_created w)"

text \<open>
  The shape of every record line: two spaces in front and a comma at the end.
\<close>

definition is_record_line :: "string \<Rightarrow> bool" where
  "is_record_line l = (3 \<le> length l \<and> take 2 l = ''  '' \<and> last l = CHR '','')"

text \<open>
  The output is empty as long as the first-event flag is set; afterwards it is the line
  \<^verbatim>\<open>[\<close> followed by at least one record line, and nothing else.
\<close>

definition framed :: "world \<Rightarrow> bool" where
  "framed w =
     (if isFirstLogEvent w then stdout w = []
      else (case stdout w of
              [] \<Rightarrow> False
            | l # ls \<Rightarrow> l = ''['' \<and> ls \<noteq> [] \<and> list_all is_record_line ls))"

section \<open>Unfolding the state operations\<close>

lemmas world_defs = timestamp_def Math_random_def Date_now_def console_log_def profilerEvent_def
lemmas map_defs = createMap_def Map_get_def Map_set_def number_or_def

section \<open>Preservation of the invariants\<close>

lemma maps_createdI:
  "counts w = Some c \<Longrightarrow> marks w = Some mk \<Longrightarrow> measures w = Some ms \<Longrightarrow> distinct (map fst ms)
     \<Longrightarrow> maps_created w"
  by (simp add: maps_created_def)

lemma maps_createdE:
  assumes "maps_created w"
  obtains c mk ms where "counts w = Some c" "marks w = Some mk" "measures w = Some ms"
    "distinct (map fst ms)"
  using assms by (auto simp: maps_created_def split: option.splits)

lemma logTraceEvent_frame [simp]:
  "enabled (logTraceEvent f d w) = enabled w"
  "counts (logTraceEvent f d w) = counts w"
  "marks (logTraceEvent f d w) = marks w"
  "measures (logTraceEvent f d w) = measures w"
  "profilerStart (logTraceEvent f d w) = profilerStart w"
  by (simp_all add: logTraceEvent_def console_log_def Let_def)

lemma logCompleteEvent_frame [simp]:
  "enabled (logCompleteEvent e n d a w) = enabled w"
  "counts (logCompleteEvent e n d a w) = counts w"
  "marks (logCompleteEvent e n d a w) = marks w"
  "measures (logCompleteEvent e n d a w) = measures w"
  "profilerStart (logCompleteEvent e n d a w) = profilerStart w"
  by (simp_all add: logCompleteEvent_def Date_now_def Let_def)

lemma logSlowEvent_frame [simp]:
  "enabled (logSlowEvent e n d a w) = enabled w"
  "counts (logSlowEvent e n d a w) = counts w"
  "marks (logSlowEvent e n d a w) = marks w"
  "measures (logSlowEvent e n d a w) = measures w"
  "profilerStart (logSlowEvent e n d a w) = profilerStart w"
  by (simp_all add: logSlowEvent_def Math_random_def Let_def)

lemma and_get_Some: "\<exists>r. and_get name (Some mk) = Inr r"
  by (simp add: and_get_def split: option.splits)

lemma measure_delta_created:
  assumes "marks w = Some mk"
  shows "\<exists>a b u. measure_delta e s en w = Inr (a, b, u) \<and> enabled u = enabled w \<and>
           counts u = counts w \<and> marks u = marks w \<and> measures u = measures w"
proof -
  obtain r where r: "and_get en (Some mk) = Inr r" using and_get_Some by blast
  obtain r' where r': "and_get s (Some mk) = Inr r'" using and_get_Some by blast
  show ?thesis
    using assms r r'
    by (cases r) (simp_all add: measure_delta_def timestamp_def Let_def)
qed

lemma measure_delta_frame:
  assumes "measure_delta e s en w = Inr (a, b, u)"
  shows "enabled u = enabled w \<and> counts u = counts w \<and> marks u = marks w \<and> measures u = measures w"
  using assms
  by (auto simp: measure_delta_def timestamp_def Let_def split: sum.splits option.splits)

lemma mark_created:
  assumes "maps_created w"
  shows "\<exists>w'. mark e n w = Inr w' \<and> maps_created w' \<and> enabled w' = enabled w \<and> measures w' = measures w"
proof -
  from assms obtain c mk ms where m: "counts w = Some c" "marks w = Some mk" "measures w = Some ms"
    "distinct (map fst ms)" by (rule maps_createdE)
  show ?thesis
    using m by (simp add: mark_def timestamp_def profilerEvent_def Let_def maps_created_def)
qed

lemma measure_perf_created:
  assumes "maps_created w"
  shows "\<exists>w'. measure_perf e n s en w = Inr w' \<and> maps_created w' \<and> enabled w' = enabled w"
proof -
  from assms obtain c mk ms where m: "counts w = Some c" "marks w = Some mk" "measures w = Some ms"
    "distinct (map fst ms)" by (rule maps_createdE)
  obtain a b u where d: "measure_delta e s en w = Inr (a, b, u)" "enabled u = enabled w"
    "counts u = counts w" "marks u = marks w" "measures u = measures w"
    using measure_delta_created [OF m(2)] by blast
  show ?thesis
    using m d by (simp add: measure_perf_def Let_def maps_created_def Map_set_def distinct_update)
qed

lemma step_created:
  assumes "maps_created w"
  shows "\<exists>w'. step e c w = Inr w' \<and> maps_created w'"
proof (cases c)
  case Enable
  then show ?thesis by (simp add: enable_def timestamp_def maps_created_def createMap_def)
next
  case Disable
  then show ?thesis using assms by (simp add: disable_def maps_created_def)
next
  case (Mark n)
  then show ?thesis using mark_created [OF assms, of e n] by auto
next
  case (Measure n s en)
  then show ?thesis using measure_perf_created [OF assms, of e n s en] by auto
next
  case IncreaseLogDepth
  then show ?thesis using assms by (simp add: increaseLogDepth_def maps_created_def)
next
  case DecreaseLogDepth
  then show ?thesis using assms by (simp add: decreaseLogDepth_def maps_created_def)
next
  case (LogSlowEvent n d a)
  then show ?thesis using assms by (simp add: maps_created_def)
next
  case (LogCompleteEvent n d a)
  then show ?thesis using assms by (simp add: maps_created_def)
next
  case (LogTraceEvent d)
  then show ?thesis using assms by (simp add: maps_created_def)
qed

lemma step_never_enabled:
  assumes "never_enabled w" "c \<noteq> Enable"
  shows "\<exists>w'. step e c w = Inr w' \<and> never_enabled w'"
  using assms
  by (cases c) (simp_all add: never_enabled_def mark_def measure_perf_def disable_def
      increaseLogDepth_def decreaseLogDepth_def)

lemma step_Enable_created: "maps_created (enable e w)"
  by (simp add: enable_def timestamp_def maps_created_def createMap_def)

lemma run_created:
  "maps_created w \<Longrightarrow> \<exists>w'. run e cs w = Inr w' \<and> maps_created w'"
proof (induction cs arbitrary: w)
  case Nil
  then show ?case by simp
next
  case (Cons c cs)
  from step_created [OF Cons.prems] obtain w1 where "step e c w = Inr w1" "maps_created w1"
    by blast
  then show ?case using Cons.IH [of w1] by simp
qed

lemma run_never_enabled:
  "never_enabled w \<Longrightarrow>
     \<exists>w'. run e cs w = Inr w' \<and> (if Enable \<in> set cs then maps_created w' else never_enabled w')"
proof (induction cs arbitrary: w)
  case Nil
  then show ?case by simp
next
  case (Cons c cs)
  show ?case
  proof (cases "c = Enable")
    case True
    then show ?thesis using run_created [OF step_Enable_created, of e cs e w] by simp
  next
    case False
    from step_never_enabled [OF Cons.prems False] obtain w1
      where "step e c w = Inr w1" "never_enabled w1" by blast
    then show ?thesis using Cons.IH [of w1] False by auto
  qed
qed

lemma initial_never_enabled: "never_enabled initial"
  by (simp add: never_enabled_def initial_def)

lemma run_initial_returns: "\<exists>w. run e cs initial = Inr w"
  using run_never_enabled [OF initial_never_enabled, of e cs] by blast

lemma run_append:
  "run e (xs @ ys) w = (case run e xs w of Inl err \<Rightarrow> Inl err | Inr w1 \<Rightarrow> run e ys w1)"
  by (induction xs arbitrary: w) (simp_all split: sum.splits)

section \<open>Timers\<close>

lemma run_timer_append:
  "run_timer e (xs @ ys) tw =
     (case run_timer e xs tw of Inl err \<Rightarrow> Inl err | Inr tw1 \<Rightarrow> run_timer e ys tw1)"
proof (induction xs arbitrary: tw)
  case Nil
  then show ?case by simp
next
  case (Cons x xs)
  obtain t w where tw: "tw = (t, w)" by (cases tw)
  show ?case
    unfolding tw using Cons.IH
    by (cases x) (simp_all split: sum.splits)
qed

lemma run_timer_nested_enters:
  "0 < c \<Longrightarrow>
     run_timer e (replicate j Enter) (CreatedTimer m s en c, w) =
       Inr (CreatedTimer m s en (c + int j), w)"
proof (induction j arbitrary: c)
  case 0
  then show ?case by simp
next
  case (Suc j)
  from Suc.prems have "0 < c + 1" by simp
  from Suc.IH [OF this] Suc.prems show ?case
    by (simp add: Let_def add.assoc)
qed

lemma run_timer_inner_exits:
  "int k < c \<Longrightarrow>
     run_timer e (replicate k Exit) (CreatedTimer m s en c, w) =
       Inr (CreatedTimer m s en (c - int k), w)"
proof (induction k arbitrary: c)
  case 0
  then show ?case by simp
next
  case (Suc k)
  from Suc.prems have "int k < c - 1" by simp
  from Suc.IH [OF this] Suc.prems show ?case
    by (simp add: Let_def algebra_simps)
qed

lemma run_timer_enters:
  assumes "0 < n"
  shows "run_timer e (replicate n Enter) (createTimer m s en, w) =
           (case mark e s w of Inl err \<Rightarrow> Inl err
            | Inr w1 \<Rightarrow> Inr (CreatedTimer m s en (int n), w1))"
proof -
  from assms obtain j where n: "n = Suc j" by (cases n) auto
  show ?thesis
    unfolding n
    by (simp add: createTimer_def Let_def run_timer_nested_enters split: sum.splits)
qed

lemma run_timer_nested:
  "(k < n \<longrightarrow>
      run_timer e (replicate n Enter @ replicate k Exit) (createTimer m s en, w) =
        (case mark e s w of Inl err \<Rightarrow> Inl err
         | Inr w1 \<Rightarrow> Inr (CreatedTimer m s en (int n - int k), w1)))
   \<and> (0 < n \<longrightarrow>
      run_timer e (replicate n Enter @ replicate n Exit) (createTimer m s en, w) =
        (case mark e s w of Inl err \<Rightarrow> Inl err
         | Inr w1 \<Rightarrow>
            (case mark e en w1 of Inl err \<Rightarrow> Inl err
             | Inr w2 \<Rightarrow>
               (case measure_perf e m (Some s) (Some en) w2 of Inl err \<Rightarrow> Inl err
                | Inr w3 \<Rightarrow> Inr (CreatedTimer m s en 0, w3)))))"
proof (intro conjI impI)
  assume kn: "k < n"
  then have n: "0 < n" by simp
  show "run_timer e (replicate n Enter @ replicate k Exit) (createTimer m s en, w) =
        (case mark e s w of Inl err \<Rightarrow> Inl err
         | Inr w1 \<Rightarrow> Inr (CreatedTimer m s en (int n - int k), w1))"
    using kn by (simp add: run_timer_append run_timer_enters [OF n] run_timer_inner_exits
        split: sum.splits)
next
  assume n: "0 < n"
  then obtain j where j: "n = Suc j" by (cases n) auto
  have split: "replicate n Exit = replicate j Exit @ [Exit]"
    unfolding j by (simp add: replicate_append_same)
  have inner: "run_timer e (replicate j Exit) (CreatedTimer m s en (int n), w1) =
          Inr (CreatedTimer m s en 1, w1)" for w1
    using run_timer_inner_exits [of j "int n" e m s en w1] by (simp add: j)
  show "run_timer e (replicate n Enter @ replicate n Exit) (createTimer m s en, w) =
        (case mark e s w of Inl err \<Rightarrow> Inl err
         | Inr w1 \<Rightarrow>
            (case mark e en w1 of Inl err \<Rightarrow> Inl err
             | Inr w2 \<Rightarrow>
               (case measure_perf e m (Some s) (Some en) w2 of Inl err \<Rightarrow> Inl err
                | Inr w3 \<Rightarrow> Inr (CreatedTimer m s en 0, w3))))"
    unfolding split
    by (simp add: run_timer_append run_timer_enters [OF n] inner Let_def split: sum.splits)
qed

text \<open>
  Claim C1. On a timer fresh from \<^verbatim>\<open>createTimer\<close>, the calls \<^verbatim>\<open>enter(); enter(); exit()\<close>
  leave exactly the world that the single \<^verbatim>\<open>mark(startMarkName)\<close> of the first
  \<^verbatim>\<open>enter()\<close> leaves, with the counter at 1: no end mark and no measure has been
  recorded. The next \<^verbatim>\<open>exit()\<close> then runs \<^verbatim>\<open>mark(endMarkName)\<close> followed by
  \<^verbatim>\<open>measure(measureName, startMarkName, endMarkName)\<close> and leaves the counter at 0. In
  general \<^verbatim>\<open>enter()\<close> marks the start only when the counter goes from 0 to 1, and
  \<^verbatim>\<open>exit()\<close> marks the end and measures only when it goes from 1 to 0: \<open>n\<close> nested
  enters followed by \<open>k < n\<close> exits have recorded the start mark once and nothing else,
  and \<open>n > 0\<close> enters followed by \<open>n\<close> exits have recorded the start mark, the end mark
  and the measure once each.
\<close>

theorem timer_nesting:
  "run_timer e [Enter, Enter, Exit] (createTimer m s en, w) =
     (case mark e s w of Inl err \<Rightarrow> Inl err | Inr w1 \<Rightarrow> Inr (CreatedTimer m s en 1, w1))
   \<and> run_timer e [Enter, Enter, Exit, Exit] (createTimer m s en, w) =
     (case mark e s w of Inl err \<Rightarrow> Inl err
      | Inr w1 \<Rightarrow>
          (case mark e en w1 of Inl err \<Rightarrow> Inl err
           | Inr w2 \<Rightarrow>
               (case measure_perf e m (Some s) (Some en) w2 of Inl err \<Rightarrow> Inl err
                | Inr w3 \<Rightarrow> Inr (CreatedTimer m s en 0, w3))))
   \<and> enter e (CreatedTimer m s en c) w =
     (if c = 0
      then (case mark e s w of Inl err \<Rightarrow> Inl err | Inr w1 \<Rightarrow> Inr (CreatedTimer m s en 1, w1))
      else Inr (CreatedTimer m s en (c + 1), w))
   \<and> exit e (CreatedTimer m s en c) w =
     (if c = 1
      then (case mark e en w of Inl err \<Rightarrow> Inl err
            | Inr w1 \<Rightarrow>
                (case measure_perf e m (Some s) (Some en) w1 of Inl err \<Rightarrow> Inl err
                 | Inr w2 \<Rightarrow> Inr (CreatedTimer m s en 0, w2)))
      else if c < 1 then Inl (DebugFailure ''enter/exit count does not match.'')
      else Inr (CreatedTimer m s en (c - 1), w))
   \<and> (k < n \<longrightarrow>
      run_timer e (replicate n Enter @ replicate k Exit) (createTimer m s en, w) =
        (case mark e s w of Inl err \<Rightarrow> Inl err
         | Inr w1 \<Rightarrow> Inr (CreatedTimer m s en (int n - int k), w1)))
   \<and> (0 < n \<longrightarrow>
      run_timer e (replicate n Enter @ replicate n Exit) (createTimer m s en, w) =
        (case mark e s w of Inl err \<Rightarrow> Inl err
         | Inr w1 \<Rightarrow>
            (case mark e en w1 of Inl err \<Rightarrow> Inl err
             | Inr w2 \<Rightarrow>
               (case measure_perf e m (Some s) (Some en) w2 of Inl err \<Rightarrow> Inl err
                | Inr w3 \<Rightarrow> Inr (CreatedTimer m s en 0, w3)))))"
proof -
  have three: "run_timer e [Enter, Enter, Exit] (createTimer m s en, w) =
     (case mark e s w of Inl err \<Rightarrow> Inl err | Inr w1 \<Rightarrow> Inr (CreatedTimer m s en 1, w1))"
    by (simp add: createTimer_def Let_def split: sum.splits)
  have four: "run_timer e [Enter, Enter, Exit, Exit] (createTimer m s en, w) =
     (case mark e s w of Inl err \<Rightarrow> Inl err
      | Inr w1 \<Rightarrow>
          (case mark e en w1 of Inl err \<Rightarrow> Inl err
           | Inr w2 \<Rightarrow>
               (case measure_perf e m (Some s) (Some en) w2 of Inl err \<Rightarrow> Inl err
                | Inr w3 \<Rightarrow> Inr (CreatedTimer m s en 0, w3))))"
    by (simp add: createTimer_def Let_def split: sum.splits)
  have enter_law: "enter e (CreatedTimer m s en c) w =
     (if c = 0
      then (case mark e s w of Inl err \<Rightarrow> Inl err | Inr w1 \<Rightarrow> Inr (CreatedTimer m s en 1, w1))
      else Inr (CreatedTimer m s en (c + 1), w))"
    by (cases "c = 0") (simp_all add: Let_def)
  have exit_law: "exit e (CreatedTimer m s en c) w =
     (if c = 1
      then (case mark e en w of Inl err \<Rightarrow> Inl err
            | Inr w1 \<Rightarrow>
                (case measure_perf e m (Some s) (Some en) w1 of Inl err \<Rightarrow> Inl err
                 | Inr w2 \<Rightarrow> Inr (CreatedTimer m s en 0, w2)))
      else if c < 1 then Inl (DebugFailure ''enter/exit count does not match.'')
      else Inr (CreatedTimer m s en (c - 1), w))"
    by (cases "c = 1") (simp_all add: Debug_fail_def Let_def)
  from three four enter_law exit_law run_timer_nested [of k n e m s en w]
  show ?thesis by blast
qed

theorem timer_nesting_witness:
  "(1::nat) < 2 \<and> replicate 2 Enter @ replicate 1 Exit = [Enter, Enter, Exit]
   \<and> run_timer sample_env [Enter, Enter, Exit] (createTimer ''m'' ''s'' ''e'', enable sample_env initial) =
     Inr (CreatedTimer ''m'' ''s'' ''e'' 1,
      \<lparr>enabled = True, profilerStart = 0, counts = Some [(''s'', 1)],
         marks = Some [(''s'', 20)], measures = Some [], logDepth = 0,
         isFirstLogEvent = True, stdout = [], hookCalls = [''s''],
         timestampReads = 2, randomReads = 0, dateNowReads = 0\<rparr>)
   \<and> run_timer sample_env [Enter, Enter, Exit, Exit] (createTimer ''m'' ''s'' ''e'', enable sample_env initial) =
     Inr (CreatedTimer ''m'' ''s'' ''e'' 0,
      \<lparr>enabled = True, profilerStart = 0,
         counts = Some [(''s'', 1), (''e'', 1)],
         marks = Some [(''s'', 20), (''e'', 40)],
         measures = Some [(''m'', 20)], logDepth = 0,
         isFirstLogEvent = False, stdout = [''['', ''  m-1234,''],
         hookCalls = [''s'', ''e''], timestampReads = 3, randomReads = 1,
         dateNowReads = 1\<rparr>)"
  using timer_nesting [of sample_env "''m''" "''s''" "''e''" "enable sample_env initial" 0 1 2]
  by (simp add: sample_env_def initial_def enable_def mark_def measure_perf_def measure_delta_def and_get_def
      timestamp_def createMap_def Map_set_def Map_get_def number_or_def profilerEvent_def
      logSlowEvent_def Math_random_def logCompleteEvent_def Date_now_def logTraceEvent_def console_log_def
      numberToString_def natToString.simps createTimer_def numeral_2_eq_2)

lemma mark_not_DebugFailure: "mark e n w \<noteq> Inl (DebugFailure msg)"
  by (simp add: mark_def timestamp_def Let_def split: option.splits)

lemma measure_delta_not_DebugFailure: "measure_delta e s en w \<noteq> Inl (DebugFailure msg)"
  by (auto simp: measure_delta_def and_get_def timestamp_def Let_def split: option.splits sum.splits if_splits prod.splits)

lemma measure_perf_not_DebugFailure: "measure_perf e n s en w \<noteq> Inl (DebugFailure msg)"
  using measure_delta_not_DebugFailure [of e s en w msg]
  by (auto simp: measure_perf_def Let_def split: option.splits sum.splits)

lemma run_timer_never_fails:
  "never_outnumber c cs \<Longrightarrow> 0 \<le> c \<Longrightarrow>
     run_timer e cs (CreatedTimer m s en c, w) \<noteq> Inl (DebugFailure msg)"
proof (induction cs arbitrary: c w)
  case Nil
  then show ?case by simp
next
  case (Cons a cs)
  show ?case
  proof (cases a)
    case Enter
    with Cons.prems have n: "never_outnumber (c + 1) cs" "0 \<le> c + 1" by simp_all
    show ?thesis
      using Enter Cons.IH [OF n] mark_not_DebugFailure [of e s w msg]
      by (auto simp: Let_def split: sum.splits)
  next
    case Exit
    with Cons.prems have n: "never_outnumber (c - 1) cs" "0 \<le> c - 1" by simp_all
    show ?thesis
      using Exit Cons.IH [OF n] mark_not_DebugFailure [of e en w msg]
        measure_perf_not_DebugFailure [of e m "Some s" "Some en" _ msg] n(2)
      by (auto simp: Let_def split: sum.splits)
  qed
qed

lemma world_ok_mark:
  assumes "world_ok w"
  shows "\<exists>w'. mark e n w = Inr w' \<and> world_ok w'"
proof (cases "enabled w")
  case True
  with assms have "maps_created w" by (simp add: world_ok_def)
  from mark_created [OF this, of e n] show ?thesis by (auto simp: world_ok_def)
next
  case False
  with assms show ?thesis by (simp add: mark_def)
qed

lemma world_ok_measure_perf:
  assumes "world_ok w"
  shows "\<exists>w'. measure_perf e n s en w = Inr w' \<and> world_ok w'"
proof (cases "enabled w")
  case True
  with assms have "maps_created w" by (simp add: world_ok_def)
  from measure_perf_created [OF this, of e n s en] show ?thesis by (auto simp: world_ok_def)
next
  case False
  with assms show ?thesis by (simp add: measure_perf_def)
qed

lemma run_timer_returns:
  "never_outnumber c cs \<Longrightarrow> 0 \<le> c \<Longrightarrow> world_ok w \<Longrightarrow>
     \<exists>t' w'. run_timer e cs (CreatedTimer m s en c, w) = Inr (t', w')"
proof (induction cs arbitrary: c w)
  case Nil
  then show ?case by simp
next
  case (Cons a cs)
  show ?case
  proof (cases a)
    case Enter
    with Cons.prems have n: "never_outnumber (c + 1) cs" "0 \<le> c + 1" by simp_all
    obtain w1 where w1: "mark e s w = Inr w1" "world_ok w1"
      using world_ok_mark [OF Cons.prems(3)] by blast
    show ?thesis
      using Enter Cons.IH [OF n w1(2)] Cons.IH [OF n Cons.prems(3)] w1(1)
      by (auto simp: Let_def)
  next
    case Exit
    with Cons.prems have n: "never_outnumber (c - 1) cs" "0 \<le> c - 1" by simp_all
    obtain w1 where w1: "mark e en w = Inr w1" "world_ok w1"
      using world_ok_mark [OF Cons.prems(3)] by blast
    obtain w2 where w2: "measure_perf e m (Some s) (Some en) w1 = Inr w2" "world_ok w2"
      using world_ok_measure_perf [OF w1(2)] by blast
    show ?thesis
      using Exit Cons.IH [OF n w2(2)] Cons.IH [OF n Cons.prems(3)] w1(1) w2(1) n(2)
      by (auto simp: Let_def)
  qed
qed

text \<open>
  Claim C2. \<^verbatim>\<open>exit()\<close> on a timer whose enter count is 0 (or below) raises the failure
  of \<^verbatim>\<open>Debug.fail\<close> with the message \<^verbatim>\<open>enter/exit count does not match.\<close>; it returns
  no timer and clamps nothing. When no prefix of the calls has more exits than enters,
  that failure is never raised, and in a state where recording cannot raise the whole
  sequence returns.
\<close>

theorem exit_without_enter_fails:
  "(c \<le> 0 \<longrightarrow>
      exit e (CreatedTimer m s en c) w = Inl (DebugFailure ''enter/exit count does not match.''))
   \<and> exit e (createTimer m s en) w = Inl (DebugFailure ''enter/exit count does not match.'')
   \<and> (never_outnumber 0 cs \<longrightarrow>
        run_timer e cs (createTimer m s en, w) \<noteq> Inl (DebugFailure msg))
   \<and> (never_outnumber 0 cs \<and> world_ok w \<longrightarrow>
        (\<exists>t' w'. run_timer e cs (createTimer m s en, w) = Inr (t', w')))"
  using run_timer_never_fails [of 0 cs e m s en w msg] run_timer_returns [of 0 cs w e m s en]
  by (simp add: createTimer_def Debug_fail_def Let_def)

theorem exit_without_enter_fails_witness:
  "exit sample_env (CreatedTimer ''m'' ''s'' ''e'' 0) initial = Inl (DebugFailure ''enter/exit count does not match.'')
   \<and> never_outnumber 0 [Enter, Enter, Exit, Exit] \<and> world_ok initial
   \<and> run_timer sample_env [Enter, Enter, Exit, Exit] (createTimer ''m'' ''s'' ''e'', initial)
       = Inr (CreatedTimer ''m'' ''s'' ''e'' 0, initial)"
  using exit_without_enter_fails [of 0 sample_env "''m''" "''s''" "''e''" initial "[Enter, Enter, Exit, Exit]"]
  by (simp add: world_ok_def initial_def createTimer_def mark_def measure_perf_def)

lemma run_timer_null: "run_timer e cs (NullTimer, w) = Inr (NullTimer, w)"
  by (induction cs) (simp_all add: noop_def split: timer_call.splits, (case_tac a; simp add: noop_def))

text \<open>
  Claim C9. \<^verbatim>\<open>createTimerIf(false, ...)\<close> is the shared \<^verbatim>\<open>nullTimer\<close>, and any sequence of
  \<^verbatim>\<open>enter()\<close> and \<^verbatim>\<open>exit()\<close> calls on it, in any state of the module, returns with the
  world unchanged; in particular \<^verbatim>\<open>exit()\<close> never raises.
\<close>

theorem createTimerIf_false_null:
  "createTimerIf False measureName startMarkName endMarkName = nullTimer \<and>
   enter e nullTimer w = Inr (nullTimer, w) \<and> exit e nullTimer w = Inr (nullTimer, w) \<and>
   run_timer e cs (createTimerIf False measureName startMarkName endMarkName, w) = Inr (nullTimer, w)"
  by (simp add: createTimerIf_def nullTimer_def noop_def run_timer_null)

section \<open>Marks and measures\<close>

text \<open>
  Claim C3, at the input where the code departs from it. The clock reads 0 at
  \<^verbatim>\<open>enable()\<close> and at \<^verbatim>\<open>mark("e")\<close>, so the mark \<^verbatim>\<open>e\<close> is recorded with timestamp 0, and
  reads 7 afterwards. \<^verbatim>\<open>measure("m", undefined, "e")\<close> then does not take the recorded 0
  as the end: \<^verbatim>\<open>marks.get("e") || timestamp()\<close> finds 0 falsy and reads the clock, so
  the measure is 7 - 0 = 7, where the recorded timestamps give 0 - 0 = 0.
\<close>

theorem measure_ignores_zero_mark:
  "run origin_env [Enable, Mark ''e'', Measure ''m'' None (Some ''e'')] initial =
     Inr \<lparr>enabled = True, profilerStart = 0, counts = Some [(''e'', 1)],
        marks = Some [(''e'', 0)], measures = Some [(''m'', 7)],
        logDepth = 0, isFirstLogEvent = True, stdout = [], hookCalls = [],
        timestampReads = 3, randomReads = 0, dateNowReads = 0\<rparr>"
  by (simp add: origin_env_def initial_def enable_def mark_def measure_perf_def measure_delta_def and_get_def
      timestamp_def createMap_def Map_set_def Map_get_def number_or_def profilerEvent_def
      logSlowEvent_def)

text \<open>
  For names that are not empty and recorded timestamps other than 0 the two lookups do
  return the recorded values, and the clock is not read.
\<close>

lemma measure_delta_recorded:
  assumes "marks w = Some mk"
    and "s \<noteq> []" "Map_get mk s = Some a" "a \<noteq> 0"
    and "en \<noteq> []" "Map_get mk en = Some b" "b \<noteq> 0"
  shows "measure_delta e (Some s) (Some en) w = Inr (a, b, w)"
  using assms by (simp add: measure_delta_def and_get_def)

text \<open>
  A mark recorded with timestamp 0 is passed over, whatever the name: the end is the
  next clock reading.
\<close>

lemma measure_delta_zero_recorded:
  assumes "marks w = Some mk" and "Map_get mk en = Some 0"
  shows "measure_delta e None (Some en) w =
           Inr (profilerStart w, timestampAt e (timestampReads w),
                w\<lparr>timestampReads := timestampReads w + 1\<rparr>)"
  using assms by (simp add: measure_delta_def and_get_def timestamp_def)

lemma measure_perf_getDuration:
  assumes "enabled w" and "measures w = Some ms"
    and "measure_delta e s en w = Inr (a, b, u)"
  shows "\<exists>w1 ms1. measure_perf e n s en w = Inr w1 \<and> enabled w1 \<and> measures w1 = Some ms1 \<and>
           getDuration n w1 = getDuration n w + (b - a)"
proof -
  have u: "measures u = Some ms" "enabled u"
    using measure_delta_frame [OF assms(3)] assms(1,2) by simp_all
  let ?x = "number_or (Map_get ms n) 0 + (b - a)"
  let ?w1 = "logSlowEvent e n (b - a) None (u\<lparr>measures := Some (Map_set ms n ?x)\<rparr>)"
  have run: "measure_perf e n s en w = Inr ?w1"
    using assms u by (simp add: measure_perf_def Let_def)
  have "getDuration n ?w1 = number_or (Some ?x) 0"
    by (simp add: getDuration_def Map_get_def Map_set_def update_conv')
  also have "\<dots> = ?x" by (simp add: number_or_def)
  also have "\<dots> = getDuration n w + (b - a)" using assms(2) by (simp add: getDuration_def)
  finally have "getDuration n ?w1 = getDuration n w + (b - a)" .
  then show ?thesis using run u by simp
qed

text \<open>
  Claim C4. While enabled, a call of \<^verbatim>\<open>measure\<close> that computes the delta \<open>b1 - a1\<close> adds
  it to the duration stored under the name, and a second call that computes \<open>b2 - a2\<close>
  adds that too: \<^verbatim>\<open>getDuration\<close> ends at the old total plus both deltas, and the old
  total is 0 for a name not measured before.
\<close>

theorem measure_accumulates:
  assumes "enabled w" and "measures w = Some ms"
    and "measure_delta e s1 e1 w = Inr (a1, b1, u1)"
  shows "\<exists>w1. measure_perf e n s1 e1 w = Inr w1 \<and>
           getDuration n w1 = getDuration n w + (b1 - a1) \<and>
           (Map_get ms n = None \<longrightarrow> getDuration n w = 0) \<and>
           (\<forall>s2 e2 a2 b2 u2. measure_delta e s2 e2 w1 = Inr (a2, b2, u2) \<longrightarrow>
              (\<exists>w2. measure_perf e n s2 e2 w1 = Inr w2 \<and>
                    getDuration n w2 = getDuration n w + (b1 - a1) + (b2 - a2)))"
proof -
  obtain w1 ms1 where w1: "measure_perf e n s1 e1 w = Inr w1" "enabled w1" "measures w1 = Some ms1"
    "getDuration n w1 = getDuration n w + (b1 - a1)"
    using measure_perf_getDuration [OF assms] by blast
  have unseen: "Map_get ms n = None \<longrightarrow> getDuration n w = 0"
    using assms(2) by (simp add: getDuration_def number_or_def)
  have second: "\<forall>s2 e2 a2 b2 u2. measure_delta e s2 e2 w1 = Inr (a2, b2, u2) \<longrightarrow>
              (\<exists>w2. measure_perf e n s2 e2 w1 = Inr w2 \<and>
                    getDuration n w2 = getDuration n w + (b1 - a1) + (b2 - a2))"
  proof (intro allI impI)
    fix s2 e2 a2 b2 u2
    assume "measure_delta e s2 e2 w1 = Inr (a2, b2, u2)"
    from measure_perf_getDuration [OF w1(2,3) this, of n] w1(4)
    show "\<exists>w2. measure_perf e n s2 e2 w1 = Inr w2 \<and>
                    getDuration n w2 = getDuration n w + (b1 - a1) + (b2 - a2)"
      by auto
  qed
  from w1(1,4) unseen second show ?thesis
    by (intro exI [of _ w1] conjI)
qed

theorem measure_accumulates_witness:
  "\<exists>w1 w2. measure_perf sample_env ''m'' None None (enable sample_env initial) = Inr w1 \<and>
      getDuration ''m'' w1 = 20 \<and>
      measure_perf sample_env ''m'' None None w1 = Inr w2 \<and> getDuration ''m'' w2 = 60"
proof -
  let ?w = "enable sample_env initial"
  have h1: "enabled ?w" by (simp add: enable_def timestamp_def)
  have h2: "measures ?w = Some []" by (simp add: enable_def timestamp_def createMap_def)
  have h3: "measure_delta sample_env None None ?w = Inr (0, 20, ?w\<lparr>timestampReads := 2\<rparr>)"
    by (simp add: measure_delta_def and_get_def enable_def timestamp_def sample_env_def initial_def)
  from measure_accumulates [OF h1 h2 h3, of "''m''"] obtain w1 where
    all: "measure_perf sample_env ''m'' None None ?w = Inr w1 \<and>
      getDuration ''m'' w1 = getDuration ''m'' ?w + (20 - 0) \<and>
      (Map_get ([] :: number Map) ''m'' = None \<longrightarrow> getDuration ''m'' ?w = 0) \<and>
      (\<forall>s2 e2 a2 b2 u2. measure_delta sample_env s2 e2 w1 = Inr (a2, b2, u2) \<longrightarrow>
              (\<exists>w2. measure_perf sample_env ''m'' s2 e2 w1 = Inr w2 \<and>
                    getDuration ''m'' w2 = getDuration ''m'' ?w + (20 - 0) + (b2 - a2)))" ..
  then have w1: "measure_perf sample_env ''m'' None None ?w = Inr w1"
      "getDuration ''m'' w1 = getDuration ''m'' ?w + (20 - 0)"
      "Map_get ([] :: number Map) ''m'' = None \<longrightarrow> getDuration ''m'' ?w = 0"
      "\<And>s2 e2 a2 b2 u2. measure_delta sample_env s2 e2 w1 = Inr (a2, b2, u2) \<Longrightarrow>
              (\<exists>w2. measure_perf sample_env ''m'' s2 e2 w1 = Inr w2 \<and>
                    getDuration ''m'' w2 = getDuration ''m'' ?w + (20 - 0) + (b2 - a2))"
    by blast+
  have z: "getDuration ''m'' ?w = 0" using w1(3) by (simp add: Map_get_def)
  have w1_eq: "w1 = logSlowEvent sample_env ''m'' 20 None
                 (?w\<lparr>timestampReads := 2, measures := Some [(''m'', 20)]\<rparr>)"
    using w1(1) h1 h3 h2
    by (simp add: measure_perf_def Map_set_def Map_get_def number_or_def)
  have h4: "measure_delta sample_env None None w1 = Inr (0, 40, w1\<lparr>timestampReads := 3\<rparr>)"
    unfolding w1_eq
    by (simp add: measure_delta_def and_get_def enable_def timestamp_def sample_env_def initial_def
        logSlowEvent_def Math_random_def logCompleteEvent_def Date_now_def logTraceEvent_def console_log_def)
  from w1(4) [OF h4] obtain w2 where "measure_perf sample_env ''m'' None None w1 = Inr w2"
      "getDuration ''m'' w2 = getDuration ''m'' ?w + (20 - 0) + (40 - 0)" by blast
  then show ?thesis using w1(1,2) z by auto
qed

lemma run_marks_disabled:
  "\<not> enabled w \<Longrightarrow> run e (map Mark names) w = Inr w"
  by (induction names) (simp_all add: mark_def)

text \<open>
  Claim C5. While the module is disabled, \<^verbatim>\<open>mark(name)\<close> returns the world it was
  given: the three maps, the clock reading count, the output and the list of profiler
  hook calls are all unchanged. So is the world after any number of marks, and with it
  every count.
\<close>

theorem mark_disabled_no_effect:
  assumes "\<not> enabled w"
  shows "mark e markName w = Inr w \<and> run e (map Mark names) w = Inr w"
  using assms run_marks_disabled [of w e names] by (simp add: mark_def)

theorem mark_disabled_no_effect_witness:
  "\<not> enabled (disable (enable sample_env initial)) \<and>
   mark sample_env ''a'' (disable (enable sample_env initial)) = Inr (disable (enable sample_env initial)) \<and>
   getCount ''a'' (disable (enable sample_env initial)) = 0"
  using mark_disabled_no_effect [of "disable (enable sample_env initial)" sample_env "''a''" "[]"]
  by (simp add: disable_def enable_def initial_def sample_env_def world_defs map_defs getCount_def)

text \<open>
  Claim C6. Whatever was recorded before, \<^verbatim>\<open>enable()\<close> leaves three empty maps, the
  module enabled and \<^verbatim>\<open>profilerStart\<close> at the clock reading it takes; \<^verbatim>\<open>getCount\<close> and
  \<^verbatim>\<open>getDuration\<close> are 0 for every name. Enabling twice leaves the same empty maps as
  enabling once, and the first mark after it counts from 0 again. In particular this is
  the state after any sequence of recording and logging calls that ends with
  \<^verbatim>\<open>enable()\<close>.
\<close>

theorem enable_resets:
  "counts (enable e w) = Some createMap \<and> marks (enable e w) = Some createMap \<and>
   measures (enable e w) = Some createMap \<and> enabled (enable e w) \<and>
   profilerStart (enable e w) = timestampAt e (timestampReads w) \<and>
   getCount m (enable e w) = 0 \<and> getDuration n (enable e w) = 0 \<and>
   counts (enable e (enable e w)) = counts (enable e w) \<and>
   marks (enable e (enable e w)) = marks (enable e w) \<and>
   measures (enable e (enable e w)) = measures (enable e w) \<and>
   (case mark e m (enable e w) of Inl err \<Rightarrow> False | Inr w1 \<Rightarrow> getCount m w1 = 1) \<and>
   (\<exists>w'. run e (cs @ [Enable]) initial = Inr w' \<and> enabled w' \<and>
      counts w' = Some createMap \<and> marks w' = Some createMap \<and> measures w' = Some createMap \<and>
      getCount m w' = 0 \<and> getDuration n w' = 0)"
proof -
  obtain w1 where "run e cs initial = Inr w1"
    using run_initial_returns by blast
  then have "\<exists>w'. run e (cs @ [Enable]) initial = Inr w' \<and> enabled w' \<and>
      counts w' = Some createMap \<and> marks w' = Some createMap \<and> measures w' = Some createMap \<and>
      getCount m w' = 0 \<and> getDuration n w' = 0"
    by (simp add: run_append enable_def world_defs map_defs getCount_def getDuration_def)
  then show ?thesis
    by (simp add: enable_def mark_def world_defs map_defs getCount_def getDuration_def Let_def)
qed

lemma foldl_record_call: "foldl (\<lambda>acc (k, v). record_call k v acc) s ms = s @ ms"
  by (induction ms arbitrary: s) (simp_all add: record_call_def split_beta)

lemma count_list_keys:
  "distinct (map fst ms) \<Longrightarrow>
     count_list (map fst ms) k = (case map_of ms k of None \<Rightarrow> 0 | Some v \<Rightarrow> 1)"
proof (induction ms)
  case Nil
  then show ?case by simp
next
  case (Cons p ms)
  then show ?case
  proof (cases p)
    case (Pair k' v')
    show ?thesis
    proof (cases "k' = k")
      case True
      with Cons.prems Pair have "k \<notin> set (map fst ms)" by simp
      then have "count_list (map fst ms) k = 0" by (simp only: count_list_0_iff not_False_eq_True)
      with True Pair show ?thesis by simp
    next
      case False
      with Cons Pair show ?thesis by simp
    qed
  qed
qed

text \<open>
  Claim C10. In a process that has never called \<^verbatim>\<open>enable()\<close>, \<^verbatim>\<open>forEachMeasure\<close> raises
  a \<^verbatim>\<open>TypeError\<close> (it calls \<^verbatim>\<open>forEach\<close> on the undefined \<^verbatim>\<open>measures\<close>), while
  \<^verbatim>\<open>getCount\<close> and \<^verbatim>\<open>getDuration\<close> return 0. Once \<^verbatim>\<open>enable()\<close> has been called, and
  whether or not the module is enabled now, \<^verbatim>\<open>forEachMeasure\<close> returns: it has called
  the callback once for every recorded measure name and for no other, with the
  duration that \<^verbatim>\<open>getDuration\<close> returns for that name.
\<close>

theorem forEachMeasure_needs_enable:
  "(Enable \<notin> set cs \<longrightarrow>
      (\<exists>w. run e cs initial = Inr w \<and> forEachMeasure cb w s = Inl TypeError \<and>
           getCount n w = 0 \<and> getDuration n w = 0))
   \<and> (Enable \<in> set cs \<longrightarrow>
      (\<exists>w ms. run e cs initial = Inr w \<and> measures w = Some ms \<and>
           forEachMeasure cb w s = Inr (foldl (\<lambda>acc (k, v). cb k v acc) s ms) \<and>
           forEachMeasure record_call w [] = Inr ms \<and>
           (\<forall>k. count_list (map fst ms) k = (case Map_get ms k of None \<Rightarrow> 0 | Some v \<Rightarrow> 1)) \<and>
           (\<forall>(k, v) \<in> set ms. getDuration k w = v)))"
proof -
  obtain w where w: "run e cs initial = Inr w"
    "if Enable \<in> set cs then maps_created w else never_enabled w"
    using run_never_enabled [OF initial_never_enabled, of e cs] by blast
  have never: ?thesis if "Enable \<notin> set cs"
    using that w
    by (simp add: never_enabled_def forEachMeasure_def getCount_def getDuration_def)
  have once: ?thesis if en: "Enable \<in> set cs"
  proof -
    from w en have "maps_created w" by simp
    then obtain c mk ms where m: "measures w = Some ms" "distinct (map fst ms)"
      by (rule maps_createdE)
    have dur: "getDuration k w = v" if "(k, v) \<in> set ms" for k v
    proof -
      have "map_of ms k = Some v" using m(2) that by simp
      then show ?thesis using m(1) by (simp add: getDuration_def Map_get_def number_or_def)
    qed
    have "forEachMeasure record_call w [] = Inr ms"
      using m(1) by (simp add: forEachMeasure_def Map_forEach_def foldl_record_call)
    moreover have "forEachMeasure cb w s = Inr (foldl (\<lambda>acc (k, v). cb k v acc) s ms)"
      using m(1) by (simp add: forEachMeasure_def Map_forEach_def)
    moreover have "\<forall>k. count_list (map fst ms) k = (case Map_get ms k of None \<Rightarrow> 0 | Some v \<Rightarrow> 1)"
      using count_list_keys [OF m(2)] by (simp add: Map_get_def)
    ultimately show ?thesis using en w(1) m(1) dur by auto
  qed
  show ?thesis using never once by blast
qed

theorem forEachMeasure_needs_enable_witness:
  "Enable \<notin> set ([] :: unit call list) \<and>
   forEachMeasure record_call initial [] = Inl TypeError \<and>
   Enable \<in> set [Enable, Mark ''a'', Mark ''b'', Measure ''m'' (Some ''a'') (Some ''b''), Disable :: unit call] \<and>
   (\<exists>w. run sample_env [Enable, Mark ''a'', Mark ''b'', Measure ''m'' (Some ''a'') (Some ''b''), Disable] initial = Inr w \<and>
        \<not> enabled w \<and> forEachMeasure record_call w [] = Inr [(''m'', 20)])"
  using forEachMeasure_needs_enable [of "[]" sample_env record_call "[]" "''m''"]
    forEachMeasure_needs_enable [of "[Enable, Mark ''a'', Mark ''b'', Measure ''m'' (Some ''a'') (Some ''b''), Disable]" sample_env record_call "[]" "''m''"]
  by (simp add: sample_env_def initial_def enable_def mark_def measure_perf_def measure_delta_def and_get_def
      timestamp_def createMap_def Map_set_def Map_get_def number_or_def profilerEvent_def disable_def
      logSlowEvent_def Math_random_def logCompleteEvent_def Date_now_def logTraceEvent_def console_log_def
      forEachMeasure_def Map_forEach_def record_call_def)

section \<open>Trace output\<close>

lemma floor_random_range:
  fixes r :: real
  assumes "0 \<le> r" "r < 1"
  shows "0 \<le> \<lfloor>r * 10000\<rfloor> \<and> \<lfloor>r * 10000\<rfloor> < 10000"
proof -
  have "0 \<le> r * 10000" using assms by simp
  moreover have "r * 10000 < 10000" using assms by simp
  ultimately show ?thesis by (simp add: floor_less_iff)
qed

lemma stdout_logCompleteEvent:
  "stdout (logCompleteEvent e name d args w) =
     stdout w @ (if isFirstLogEvent w then [''[''] else []) @
       [''  '' @ JSON_stringify e
           \<lparr> ev_name = name, ev_cat = ''build'', ev_ph = ''X'', ev_pid = 1, ev_tid = logDepth w,
             ev_ts = (dateNowAt e (dateNowReads w) - d) * 1000, ev_dur = d * 1000,
             ev_args = args \<rparr> @ '','']"
  by (simp add: logCompleteEvent_def Date_now_def logTraceEvent_def console_log_def Let_def)

text \<open>
  Claim C7. \<^verbatim>\<open>logSlowEvent\<close> writes output exactly if \<^verbatim>\<open>durationMillis > 10\<close>: at 10 the
  world is unchanged, at 10.01 a line is written. When \<^verbatim>\<open>Math.random()\<close> returns a value
  in [0, 1), the line written is the event record whose name is the given name, a
  hyphen and the decimal digits of a whole number \<open>k\<close> with \<open>0 \<le> k < 10000\<close>.
\<close>

theorem logSlowEvent_threshold:
  "(stdout (logSlowEvent e name durationMillis args w) \<noteq> stdout w) = (durationMillis > 10)
   \<and> logSlowEvent e name 10 args w = w
   \<and> stdout (logSlowEvent e name (1001 / 100) args w) \<noteq> stdout w
   \<and> (10 < durationMillis \<and> 0 \<le> randomAt e (randomReads w) \<and> randomAt e (randomReads w) < 1 \<longrightarrow>
        (\<exists>k. 0 \<le> k \<and> k < 10000 \<and>
           stdout (logSlowEvent e name durationMillis args w) =
             stdout w @ (if isFirstLogEvent w then [''[''] else []) @
               [''  '' @ JSON_stringify e
                  \<lparr> ev_name = name @ ''-'' @ numberToString k, ev_cat = ''build'', ev_ph = ''X'',
                    ev_pid = 1, ev_tid = logDepth w,
                    ev_ts = (dateNowAt e (dateNowReads w) - durationMillis) * 1000,
                    ev_dur = durationMillis * 1000, ev_args = args \<rparr> @ '','']))"
proof -
  have slow: "stdout (logSlowEvent e name d args w) =
      stdout w @ (if isFirstLogEvent w then [''[''] else []) @
               [''  '' @ JSON_stringify e
                  \<lparr> ev_name = name @ ''-'' @ numberToString \<lfloor>randomAt e (randomReads w) * 10000\<rfloor>, ev_cat = ''build'', ev_ph = ''X'',
                    ev_pid = 1, ev_tid = logDepth w,
                    ev_ts = (dateNowAt e (dateNowReads w) - d) * 1000,
                    ev_dur = d * 1000, ev_args = args \<rparr> @ '','']" if "10 < d" for d
    using that by (simp add: logSlowEvent_def Math_random_def stdout_logCompleteEvent Let_def)
  have quick: "logSlowEvent e name d args w = w" if "\<not> 10 < d" for d
    using that by (simp add: logSlowEvent_def)
  have a: "(stdout (logSlowEvent e name durationMillis args w) \<noteq> stdout w) = (durationMillis > 10)"
    using slow [of durationMillis] quick [of durationMillis] by (cases "10 < durationMillis") simp_all
  have b: "logSlowEvent e name 10 args w = w" using quick [of 10] by simp
  have c: "stdout (logSlowEvent e name (1001 / 100) args w) \<noteq> stdout w"
    using slow [of "1001 / 100"] by simp
  show ?thesis
    using a b c slow [of durationMillis] floor_random_range [of "randomAt e (randomReads w)"]
    by blast
qed

theorem logSlowEvent_threshold_witness:
  "(10::real) < 25 \<and> 0 \<le> randomAt sample_env (randomReads initial)
   \<and> randomAt sample_env (randomReads initial) < 1
   \<and> stdout (logSlowEvent sample_env ''check'' 25 None initial) = [''['', ''  check-1234,'']
   \<and> stdout (logSlowEvent sample_env ''check'' 10 None initial) = []"
  using logSlowEvent_threshold [of sample_env "''check''" 25 None initial]
  by (simp add: logSlowEvent_def sample_env_def initial_def Math_random_def logCompleteEvent_def
      Date_now_def logTraceEvent_def console_log_def numberToString_def natToString.simps)

lemma logTraceEvent_step:
  "stdout (logTraceEvent f d w) = stdout w @ (if isFirstLogEvent w then [''[''] else []) @ [record_line f d]"
  "\<not> isFirstLogEvent (logTraceEvent f d w)"
  by (simp_all add: logTraceEvent_def console_log_def record_line_def Let_def)

lemma fold_logTraceEvent_notfirst:
  "\<not> isFirstLogEvent w \<Longrightarrow> stdout (fold (logTraceEvent f) ds w) = stdout w @ map (record_line f) ds
     \<and> \<not> isFirstLogEvent (fold (logTraceEvent f) ds w)"
  by (induction ds arbitrary: w) (simp_all add: logTraceEvent_step)

lemma fold_logTraceEvent_initial:
  "stdout (fold (logTraceEvent f) ds initial) = (if ds = [] then [] else ''['' # map (record_line f) ds)"
proof (cases ds)
  case Nil
  then show ?thesis by (simp add: initial_def)
next
  case (Cons d ds')
  have "\<not> isFirstLogEvent (logTraceEvent f d initial)" by (rule logTraceEvent_step)
  from fold_logTraceEvent_notfirst[OF this, of f ds'] show ?thesis
    using Cons by (simp add: logTraceEvent_step) (simp add: initial_def)
qed

lemma record_line_not_bracket: "record_line f d \<noteq> '']''" "record_line f d \<noteq> ''[''"
  by (simp_all add: record_line_def)

lemma is_record_line_record_line [simp]: "is_record_line (record_line f d)"
  by (simp add: is_record_line_def record_line_def)

lemma framed_logTraceEvent: "framed w \<Longrightarrow> framed (logTraceEvent f d w)"
  by (cases "stdout w")
     (auto simp: framed_def logTraceEvent_step split: if_splits)

lemma framed_logCompleteEvent: "framed w \<Longrightarrow> framed (logCompleteEvent e n d a w)"
proof -
  assume fw: "framed w"
  have "framed (w\<lparr>dateNowReads := dateNowReads w + 1\<rparr>)"
    using fw by (simp add: framed_def)
  then show ?thesis
    by (simp add: logCompleteEvent_def Date_now_def Let_def framed_logTraceEvent)
qed

lemma framed_logSlowEvent: "framed w \<Longrightarrow> framed (logSlowEvent e n d a w)"
proof -
  assume fw: "framed w"
  have "framed (w\<lparr>randomReads := randomReads w + 1\<rparr>)"
    using fw by (simp add: framed_def)
  then show ?thesis
    using fw by (simp add: logSlowEvent_def Math_random_def Let_def framed_logCompleteEvent)
qed

lemma mark_output:
  "mark e n w = Inr w' \<Longrightarrow> stdout w' = stdout w \<and> isFirstLogEvent w' = isFirstLogEvent w"
  by (auto simp: mark_def timestamp_def profilerEvent_def Let_def split: if_splits option.splits)

lemma measure_delta_output:
  "measure_delta e s en w = Inr (a, b, u) \<Longrightarrow>
     stdout u = stdout w \<and> isFirstLogEvent u = isFirstLogEvent w"
  by (auto simp: measure_delta_def timestamp_def Let_def split: sum.splits option.splits)

lemma framed_measure_perf:
  assumes "framed w" "measure_perf e n s en w = Inr w'"
  shows "framed w'"
proof (cases "enabled w")
  case False
  with assms show ?thesis by (simp add: measure_perf_def)
next
  case True
  with assms(2) obtain a b u ms where
    d: "measure_delta e s en w = Inr (a, b, u)" and
    w': "w' = logSlowEvent e n (b - a) None
                (u\<lparr>measures := Some (Map_set ms n (number_or (Map_get ms n) 0 + (b - a)))\<rparr>)"
    by (auto simp: measure_perf_def Let_def split: sum.splits option.splits)
  from measure_delta_output [OF d] assms(1)
  have "framed (u\<lparr>measures := Some (Map_set ms n (number_or (Map_get ms n) 0 + (b - a)))\<rparr>)"
    by (simp add: framed_def)
  then show ?thesis unfolding w' by (rule framed_logSlowEvent)
qed

lemma framed_step:
  assumes "framed w" "step e c w = Inr w'"
  shows "framed w'"
proof (cases c)
  case Enable
  with assms show ?thesis by (auto simp: enable_def timestamp_def framed_def)
next
  case Disable
  with assms show ?thesis by (auto simp: disable_def framed_def)
next
  case (Mark n)
  with assms mark_output [of e n w w'] show ?thesis by (simp add: framed_def)
next
  case (Measure n s en)
  with assms framed_measure_perf [of w e n s en w'] show ?thesis by simp
next
  case IncreaseLogDepth
  with assms show ?thesis by (auto simp: increaseLogDepth_def framed_def)
next
  case DecreaseLogDepth
  with assms show ?thesis by (auto simp: decreaseLogDepth_def framed_def)
next
  case (LogSlowEvent n d a)
  with assms framed_logSlowEvent [of w e n d a] show ?thesis by auto
next
  case (LogCompleteEvent n d a)
  with assms framed_logCompleteEvent [of w e n d a] show ?thesis by auto
next
  case (LogTraceEvent d)
  with assms framed_logTraceEvent [of w "JSON_stringify e" d] show ?thesis by auto
qed

lemma framed_run: "framed w \<Longrightarrow> run e cs w = Inr w' \<Longrightarrow> framed w'"
proof (induction cs arbitrary: w)
  case Nil
  then show ?case by simp
next
  case (Cons c cs)
  then show ?case by (auto split: sum.splits dest: framed_step)
qed

lemma framed_initial: "framed initial"
  by (simp add: framed_def initial_def)

lemma is_record_line_not_bracket: "is_record_line l \<Longrightarrow> l \<noteq> '']'' \<and> l \<noteq> ''[''"
  by (auto simp: is_record_line_def)

lemma framed_output:
  assumes "framed w"
  shows "'']'' \<notin> set (stdout w) \<and>
         count_list (stdout w) ''['' = (if stdout w = [] then 0 else 1) \<and>
         (stdout w = [] \<or> hd (stdout w) = ''['')"
proof (cases "stdout w")
  case Nil
  then show ?thesis by simp
next
  case (Cons l ls)
  with assms have l: "l = ''[''" and ls: "list_all is_record_line ls"
    by (auto simp: framed_def split: if_splits)
  from ls have nb: "\<And>x. x \<in> set ls \<Longrightarrow> x \<noteq> '']'' \<and> x \<noteq> ''[''"
    using is_record_line_not_bracket by (auto simp: list_all_iff)
  then have "count_list ls ''['' = 0" by (simp add: count_list_0_iff) blast
  moreover have "'']'' \<notin> set ls" using nb by blast
  ultimately show ?thesis using Cons l by simp
qed

text \<open>
  Claim C8. A call of \<^verbatim>\<open>logTraceEvent\<close> appends the line \<^verbatim>\<open>[\<close> only if it is the first
  one, then the serialized record as a line of its own that ends with a comma, and
  clears the first-event flag. From the initial state, any number of calls writes one
  opening bracket followed by one line per record; the line \<^verbatim>\<open>]\<close> is never written.
  The same holds for the output of any sequence of calls to the exported recording and
  logging functions, which log through \<^verbatim>\<open>logTraceEvent\<close>: it is empty or starts with
  the one opening bracket, and has no closing bracket.
\<close>

theorem logTraceEvent_framing:
  "stdout (logTraceEvent f d w) =
     stdout w @ (if isFirstLogEvent w then [''[''] else []) @ [''  '' @ f d @ '','']
   \<and> \<not> isFirstLogEvent (logTraceEvent f d w)
   \<and> stdout (fold (logTraceEvent f) ds initial) =
       (if ds = [] then [] else ''['' # map (\<lambda>d. ''  '' @ f d @ '','') ds)
   \<and> '']'' \<notin> set (stdout (fold (logTraceEvent f) ds initial))
   \<and> count_list (stdout (fold (logTraceEvent f) ds initial)) ''['' = (if ds = [] then 0 else 1)
   \<and> (\<exists>w'. run e cs initial = Inr w' \<and> '']'' \<notin> set (stdout w') \<and>
          count_list (stdout w') ''['' = (if stdout w' = [] then 0 else 1) \<and>
          (stdout w' = [] \<or> hd (stdout w') = ''[''))"
proof -
  let ?out = "stdout (fold (logTraceEvent f) ds initial)"
  have out: "?out = (if ds = [] then [] else ''['' # map (record_line f) ds)"
    by (rule fold_logTraceEvent_initial)
  have lines: "\<And>x. x \<in> set (map (record_line f) ds) \<Longrightarrow> x \<noteq> '']'' \<and> x \<noteq> ''[''"
    by (auto simp: record_line_def)
  have cnt: "count_list (map (record_line f) ds) ''['' = 0"
    using lines by (simp add: count_list_0_iff) blast
  have nb: "'']'' \<notin> set (map (record_line f) ds)"
    using lines by blast
  obtain w' where w': "run e cs initial = Inr w'"
    using run_initial_returns by blast
  have "\<exists>w'. run e cs initial = Inr w' \<and> '']'' \<notin> set (stdout w') \<and>
          count_list (stdout w') ''['' = (if stdout w' = [] then 0 else 1) \<and>
          (stdout w' = [] \<or> hd (stdout w') = ''['')"
    using framed_output [OF framed_run [OF framed_initial w']] w' by blast
  then show ?thesis
    using out cnt nb logTraceEvent_step [of f d w]
    by (simp add: record_line_def)
qed

theorem logTraceEvent_framing_witness:
  "stdout (logTraceEvent id ''{a}'' initial) = [''['', ''  {a},'']
   \<and> stdout (logTraceEvent id ''{b}'' (logTraceEvent id ''{a}'' initial)) =
       [''['', ''  {a},'', ''  {b},'']
   \<and> stdout (fold (logTraceEvent id) [''{a}'', ''{b}''] initial) = [''['', ''  {a},'', ''  {b},'']"
  using logTraceEvent_framing [of id "''{a}''" initial "[''{a}'', ''{b}'']" sample_env "[]"]
    logTraceEvent_framing [of id "''{b}''" "logTraceEvent id ''{a}'' initial" "[]" sample_env "[]"]
  by (simp add: initial_def)

end
